theory Spec2Isabelle
  imports Main
begin

section \<open>Python strings\<close>

text \<open>
  A Python \<open>str\<close> is modelled as a \<open>string\<close> whose characters stand for the code
  points below 256, one \<open>char\<close> per code point, so that \<open>length\<close> is Python's
  \<open>len\<close>. Exceptions the modelled code can raise are values of \<open>exn\<close>.
\<close>

datatype exn =
    IndexError
  | KeyError string
  | FileNotFoundError string
  | JSONDecodeError

text \<open>
  \<open>str.isspace\<close> on one character; it is also the class \<open>\s\<close> of \<open>re\<close> on \<open>str\<close>
  patterns and the separator set of \<open>str.split()\<close> and \<open>str.strip()\<close>. Below 256 the
  white-space code points are 9 to 13, 28 to 32, 133 and 160.
\<close>

definition isspace :: "char \<Rightarrow> bool" where
  "isspace c = (c \<in> set [CHR 0x09, CHR 0x0A, CHR 0x0B, CHR 0x0C, CHR 0x0D,
                          CHR 0x1C, CHR 0x1D, CHR 0x1E, CHR 0x1F, CHR 0x20,
                          CHR 0x85, CHR 0xA0])"

definition lstrip :: "string \<Rightarrow> string" where
  "lstrip s = dropWhile isspace s"

definition rstrip :: "string \<Rightarrow> string" where
  "rstrip s = rev (dropWhile isspace (rev s))"

definition strip :: "string \<Rightarrow> string" where
  "strip s = rstrip (lstrip s)"

text \<open>\<open>s.split()\<close>: the maximal runs of characters that are not white space.
  The first argument of \<open>split_words\<close> is the word being read.\<close>

fun split_words :: "string \<Rightarrow> string \<Rightarrow> string list" where
  "split_words w [] = (if w = [] then [] else [w])"
| "split_words w (c # cs) =
     (if isspace c then (if w = [] then split_words [] cs else w # split_words [] cs)
      else split_words (w @ [c]) cs)"

definition str_split :: "string \<Rightarrow> string list" where
  "str_split s = split_words [] s"

text \<open>\<open>s.split(d)\<close> for a one-character separator: never the empty list.\<close>

fun split_on :: "char \<Rightarrow> string \<Rightarrow> string list" where
  "split_on d [] = [[]]"
| "split_on d (c # cs) =
     (if c = d then [] # split_on d cs
      else (case split_on d cs of [] \<Rightarrow> [[c]] | l # ls \<Rightarrow> (c # l) # ls))"

text \<open>\<open>sep.join(xs)\<close>.\<close>

fun join :: "string \<Rightarrow> string list \<Rightarrow> string" where
  "join sep [] = []"
| "join sep [x] = x"
| "join sep (x # y # ys) = x @ sep @ join sep (y # ys)"

definition NL :: char where
  "NL = CHR 0x0A"

section \<open>The reflow engine: \<open>to_line_length\<close>\<close>

text \<open>
  The function \<open>to_line_length(lines, length)\<close> nested in \<open>export_session\<close> (source lines
  732 to 753). \<open>match(r"^\s*", line).group()\<close> is the leading white-space run of the line.
\<close>

definition indentation_of :: "string \<Rightarrow> string" where
  "indentation_of line = takeWhile isspace line"

text \<open>
  The inner loop \<open>for w in words\<close> of \<open>to_line_length\<close>. Its state is
  \<open>(outarr, line2, maxlength)\<close>; \<open>len\<close> is the parameter \<open>length\<close> of the source.
\<close>

fun wrap_words ::
  "int \<Rightarrow> string \<Rightarrow> string list \<Rightarrow> string list \<times> string \<times> int \<Rightarrow> string list \<times> string \<times> int"
where
  "wrap_words len indentation [] st = st"
| "wrap_words len indentation (w # ws) (outarr, line2, maxlength) =
     (if int (length line2) + int (length w) + 1 > len
      then wrap_words len indentation ws
             (outarr @ [line2], indentation @ w,
              if maxlength < int (length line2) then int (length line2) else maxlength)
      else wrap_words len indentation ws
             (outarr, line2 @ (if line2 \<noteq> [] then CHR 0x20 # w else w), maxlength))"

text \<open>
  The body of the outer loop \<open>for line in lines\<close>: the text appended to \<open>stmp\<close>
  and the new \<open>maxlength\<close>.
\<close>

definition wrap_line :: "int \<Rightarrow> string \<Rightarrow> int \<Rightarrow> string \<times> int" where
  "wrap_line len line maxlength =
     (case wrap_words len (indentation_of line) (str_split line)
             ([], indentation_of line, maxlength) of
        (outarr, line2, m) \<Rightarrow>
          (join [NL] (outarr @ [line2]),
           if m < int (length line2) then int (length line2) else m))"

fun wrap_lines :: "int \<Rightarrow> string list \<Rightarrow> string list \<times> int \<Rightarrow> string list \<times> int" where
  "wrap_lines len [] st = st"
| "wrap_lines len (line # lines) (stmp, maxlength) =
     (case wrap_line len line maxlength of
        (s, m) \<Rightarrow> wrap_lines len lines (stmp @ [s], m))"

definition to_line_length :: "string list \<Rightarrow> int \<Rightarrow> string \<times> int" where
  "to_line_length lines len =
     (case wrap_lines len lines ([], 0) of (stmp, maxlength) \<Rightarrow> (join [NL] stmp, maxlength))"


section \<open>Module constants\<close>

definition CONTINUE :: string where "CONTINUE = ''continue''"
definition USER_NAME :: string where "USER_NAME = ''  __You''"
definition ASSISTANT_NAME :: string where "ASSISTANT_NAME = ''MyPyGPT''"
definition SYSTEM_NAME :: string where "SYSTEM_NAME = ''SYS    ''"
definition PROMPT_NAME :: string where "PROMPT_NAME = ''PROMPT ''"
definition DEBUG_NAME :: string where "DEBUG_NAME = '' DEBUG_''"
definition USER :: string where "USER = ''user''"
definition ASSISTANT :: string where "ASSISTANT = ''assistant''"
definition SYSTEM :: string where "SYSTEM = ''system''"

definition ROLE_MAP :: "string \<Rightarrow> string option" where
  "ROLE_MAP = map_of [(USER, USER_NAME), (ASSISTANT, ASSISTANT_NAME), (SYSTEM, SYSTEM_NAME)]"

text \<open>The placeholder reply of \<open>get_response_from_chatgpt\<close> after a failed request.\<close>

definition SORRY_REPLY :: string where
  "SORRY_REPLY = ''Sorry, I couldn't process your request.''"

section \<open>Turns and the continuation join\<close>

text \<open>
  An element of \<open>session_data\<close>: a dict with the keys \<open>role\<close> and \<open>content\<close> and, for
  replies, \<open>personality\<close>. The normalized entries of an export carry the first two only.
\<close>

record entry =
  role :: string
  content :: string
  personality :: "string option"

record export_entry =
  e_role :: string
  e_content :: string

text \<open>
  \<open>[" ", ""][message[0] in [".", ",", "!", "?", ":", ";"]] + message\<close>; \<open>message[0]\<close>
  raises on the empty string.
\<close>

definition add_space_when_needed :: "string \<Rightarrow> exn + string" where
  "add_space_when_needed message =
     (case message of
        [] \<Rightarrow> Inl IndexError
      | c # cs \<Rightarrow> Inr ((if c \<in> set ''.,!?:;'' then [] else '' '') @ message))"

section \<open>Export normalization\<close>

text \<open>
  One iteration of \<open>for sd in self.session_data\<close> in \<open>export_session\<close> (source lines 710
  to 726), on the loop state
  \<open>(is_continue, data)\<close>. In \<open>data[-1][CONTENT] += ...\<close> Python reads \<open>data[-1]\<close> before it
  evaluates the right-hand side; both failures are an \<open>IndexError\<close>.
\<close>

definition normalize_step ::
  "bool \<times> export_entry list \<Rightarrow> entry \<Rightarrow> exn + (bool \<times> export_entry list)"
where
  "normalize_step st sd =
     (case st of (is_continue, data) \<Rightarrow>
        if is_continue then
          (case data of
             [] \<Rightarrow> Inl IndexError
           | d # ds \<Rightarrow>
               (case add_space_when_needed (content sd) of
                  Inl e \<Rightarrow> Inl e
                | Inr s \<Rightarrow>
                    Inr (False,
                         butlast data @ [(last data)\<lparr>e_content := e_content (last data) @ s\<rparr>])))
        else if role sd = USER then
          (if content sd \<in> set [CONTINUE, []] then Inr (True, data)
           else Inr (is_continue, data @ [\<lparr>e_role = role sd, e_content = content sd\<rparr>]))
        else if role sd \<in> set [DEBUG_NAME, SYSTEM_NAME, PROMPT_NAME] then
          Inr (is_continue, data @ [\<lparr>e_role = SYSTEM, e_content = content sd\<rparr>])
        else
          Inr (is_continue,
               data @ [\<lparr>e_role = (case personality sd of Some p \<Rightarrow> p | None \<Rightarrow> ASSISTANT),
                         e_content = content sd\<rparr>]))"

fun normalize_loop ::
  "entry list \<Rightarrow> bool \<times> export_entry list \<Rightarrow> exn + (bool \<times> export_entry list)"
where
  "normalize_loop [] st = Inr st"
| "normalize_loop (sd # rest) st =
     (case normalize_step st sd of Inl e \<Rightarrow> Inl e | Inr st' \<Rightarrow> normalize_loop rest st')"

definition normalize :: "entry list \<Rightarrow> exn + export_entry list" where
  "normalize session_data =
     (case normalize_loop session_data (False, []) of
        Inl e \<Rightarrow> Inl e
      | Inr st \<Rightarrow> Inr (snd st))"


section \<open>The client state and its collaborators\<close>

text \<open>
  The document \<open>save_current_session\<close> and the JSON export write with \<open>json_dump\<close>, and
  \<open>load_session\<close> reads with \<open>json_load\<close>. Each key may be absent from a document that is
  loaded, so each field is optional. Serialisation and parsing are taken to be inverse to
  each other: a written document is read back as the same record.
\<close>

record saved_record =
  json_model :: "string option"
  json_max_tokens :: "int option"
  json_system :: "string option"
  json_personality :: "string option"
  json_add_sys_msg :: "string option"
  json_history :: "entry list option"

text \<open>
  A file holds either such a document or other text (a plain-text or Markdown export),
  which \<open>json_load\<close> does not read as a document.
\<close>

datatype file_content = JsonFile saved_record | TextFile string

text \<open>The keyword arguments of \<open>openai.chat.completions.create\<close>.\<close>

record request =
  req_model :: string
  req_messages :: "(string \<times> string) list"
  req_max_tokens :: int

text \<open>
  What \<open>get_response_from_chatgpt\<close> catches with \<open>except Exception as e\<close>: an exception of
  the provider call (with its text), or one raised while the request was built.
\<close>

datatype cause = ProviderError string | Raised exn

text \<open>
  The pop-up windows the modelled methods open, in order. \<open>PopupErrorOccurred e\<close> stands
  for \<open>popup_info("Error", f"An error occurred: {e}", True)\<close>.
\<close>

datatype popup =
    PopupInfo string string bool
  | PopupErrorOccurred cause
  | PopupOkCustom string string

text \<open>
  The attributes of \<open>MyPyGPTClient\<close> that the session engine reads and writes, together
  with the part of the world it acts on: the files (newest binding first), the pop-ups
  shown and the requests sent to the provider. The attribute \<open>personality\<close> is the field
  \<open>cur_personality\<close>; \<open>chat_display\<close> is the text inserted into the chat widget.
\<close>

record client =
  add_sys_msg :: string
  cur_personality :: string
  max_tokens :: int
  model :: string
  sessions_dir :: string
  current_session :: "string option"
  session_data :: "entry list"
  chat_display :: string
  temp_session_var :: bool
  files :: "(string \<times> file_content) list"
  popups :: "popup list"
  requests :: "request list"

text \<open>
  What the module takes from outside the class: the constant \<open>SYSTEM_MESSAGE\<close> (its text
  has a code point above 255, so it is a parameter here), the table \<open>PERSONALITIES\<close> in
  insertion order, and the completion provider, which answers a request with the reply's
  \<open>content\<close> or fails with an exception text.
\<close>

record env =
  SYSTEM_MESSAGE :: string
  PERSONALITIES :: "(string \<times> string) list"
  create :: "request \<Rightarrow> string + string"

definition popup_info :: "string \<Rightarrow> string \<Rightarrow> bool \<Rightarrow> client \<Rightarrow> client" where
  "popup_info title message error st = st\<lparr>popups := popups st @ [PopupInfo title message error]\<rparr>"

definition path_exists :: "client \<Rightarrow> string \<Rightarrow> bool" where
  "path_exists st p = (map_of (files st) p \<noteq> None)"

definition write_file :: "string \<Rightarrow> file_content \<Rightarrow> client \<Rightarrow> client" where
  "write_file p c st = st\<lparr>files := (p, c) # files st\<rparr>"

text \<open>\<open>os.path.join\<close> of two components, \<open>os.path.basename\<close> and \<open>os.path.splitext\<close>, as
  \<open>posixpath\<close> defines them.\<close>

definition path_join :: "string \<Rightarrow> string \<Rightarrow> string" where
  "path_join a b =
     (if b \<noteq> [] \<and> hd b = CHR ''/'' then b
      else if a = [] \<or> last a = CHR ''/'' then a @ b
      else a @ ''/'' @ b)"

definition basename :: "string \<Rightarrow> string" where
  "basename p = rev (takeWhile (\<lambda>c. c \<noteq> CHR ''/'') (rev p))"

text \<open>\<open>p.rfind(c)\<close>: the last index of \<open>c\<close>, or \<open>-1\<close>.\<close>

definition rfind :: "char \<Rightarrow> string \<Rightarrow> int" where
  "rfind c p =
     (if c \<in> set p then int (length p) - 1 - int (length (takeWhile (\<lambda>x. x \<noteq> c) (rev p)))
      else - 1)"

definition splitext :: "string \<Rightarrow> string \<times> string" where
  "splitext p =
     (let sepIndex = rfind (CHR ''/'') p; dotIndex = rfind (CHR ''.'') p in
      if dotIndex > sepIndex \<and>
         list_ex (\<lambda>c. c \<noteq> CHR ''.'')
           (take (nat (dotIndex - sepIndex - 1)) (drop (nat (sepIndex + 1)) p))
      then (take (nat dotIndex) p, drop (nat dotIndex) p)
      else (p, []))"

text \<open>\<open>str.lower\<close> on the code points below 256.\<close>

definition lower_char :: "char \<Rightarrow> char" where
  "lower_char c =
     (let n = (of_char c :: nat) in
      if (65 \<le> n \<and> n \<le> 90) \<or> (192 \<le> n \<and> n \<le> 222 \<and> n \<noteq> 215) then char_of (n + 32) else c)"

definition lower :: "string \<Rightarrow> string" where
  "lower s = map lower_char s"

text \<open>
  \<open>s.replace(old, new)\<close> for a non-empty \<open>old\<close>: the first argument counts the characters
  of a match still to be skipped.
\<close>

fun replace_from :: "nat \<Rightarrow> string \<Rightarrow> string \<Rightarrow> string \<Rightarrow> string" where
  "replace_from k old new [] = []"
| "replace_from k old new (c # cs) =
     (if k > 0 then replace_from (k - 1) old new cs
      else if old \<noteq> [] \<and> take (length old) (c # cs) = old
        then new @ replace_from (length old - 1) old new cs
      else c # replace_from 0 old new cs)"

definition str_replace :: "string \<Rightarrow> string \<Rightarrow> string \<Rightarrow> string" where
  "str_replace old new s = replace_from 0 old new s"

section \<open>Cleaning a reply\<close>

text \<open>\<open>sub(r"\n+", "\n", response)\<close>: every run of newlines becomes one newline.\<close>

fun collapse_newlines :: "string \<Rightarrow> string" where
  "collapse_newlines (c # d # s) =
     (if c = NL \<and> d = NL then collapse_newlines (d # s) else c # collapse_newlines (d # s))"
| "collapse_newlines s = s"

text \<open>
  The second substitution of \<open>get_and_update_response\<close> replaces every match of
  \<open>(\*{1,2}|_{1,2})(.*?)\1|`(.*?)`\<close> by the group between the delimiters.
  \<open>find_close delim s\<close> is the lazy group followed by the closing delimiter: the shortest
  prefix of \<open>s\<close> without a newline that \<open>delim\<close> follows. \<open>md_match s\<close> is the match
  that starts at the head of \<open>s\<close>, if there is one: the group and the length of the
  match. A doubled delimiter is tried before a single one.
\<close>

fun find_close :: "string \<Rightarrow> string \<Rightarrow> string option" where
  "find_close delim [] = None"
| "find_close delim (c # cs) =
     (if take (length delim) (c # cs) = delim then Some []
      else if c = NL then None
      else map_option ((#) c) (find_close delim cs))"

definition md_match :: "string \<Rightarrow> (string \<times> nat) option" where
  "md_match s =
     (case s of
        [] \<Rightarrow> None
      | c # cs \<Rightarrow>
          if c = CHR ''*'' \<or> c = CHR ''_'' then
            (case (if take 1 cs = [c] then find_close [c, c] (drop 1 cs) else None) of
               Some g \<Rightarrow> Some (g, length g + 4)
             | None \<Rightarrow>
                 (case find_close [c] cs of
                    Some g \<Rightarrow> Some (g, length g + 2)
                  | None \<Rightarrow> None))
          else if c = CHR 0x60 then
            (case find_close [c] cs of
               Some g \<Rightarrow> Some (g, length g + 2)
             | None \<Rightarrow> None)
          else None)"

fun remove_markdown_from :: "nat \<Rightarrow> string \<Rightarrow> string" where
  "remove_markdown_from k [] = []"
| "remove_markdown_from k (c # cs) =
     (if k > 0 then remove_markdown_from (k - 1) cs
      else (case md_match (c # cs) of
              Some (g, n) \<Rightarrow> g @ remove_markdown_from (n - 1) cs
            | None \<Rightarrow> c # remove_markdown_from 0 cs))"

definition remove_markdown :: "string \<Rightarrow> string" where
  "remove_markdown s = remove_markdown_from 0 s"


section \<open>The chat display\<close>

text \<open>
  \<open>format_chat_message\<close> and \<open>update_chat_display\<close>. A sender that is \<open>None\<close> or the
  empty string is falsy; without a sender and with \<open>add_space\<close> the message passes through
  \<open>add_space_when_needed\<close>, which raises on the empty message.
\<close>

definition format_chat_message :: "client \<Rightarrow> string \<Rightarrow> string option \<Rightarrow> bool \<Rightarrow> exn + string" where
  "format_chat_message st message sender add_space =
     (if sender \<noteq> None \<and> sender \<noteq> Some [] then
        (if session_data st = [] then Inr (the sender @ '': '' @ message)
         else if the sender \<noteq> ASSISTANT_NAME
           then Inr ([NL] @ ([NL] @ the sender) @ '': '' @ message)
         else Inr ([NL] @ the sender @ '': '' @ message))
      else if add_space then add_space_when_needed message
      else Inr message)"

definition update_chat_display :: "client \<Rightarrow> string \<Rightarrow> string option \<Rightarrow> bool \<Rightarrow> exn + client" where
  "update_chat_display st message sender add_space =
     (case format_chat_message st (strip message) sender add_space of
        Inl e \<Rightarrow> Inl e
      | Inr t \<Rightarrow> Inr (st\<lparr>chat_display := chat_display st @ t\<rparr>))"

section \<open>Requests to the provider\<close>

text \<open>
  The property \<open>system_message\<close>: the look-up in \<open>PERSONALITIES\<close> raises for a key the
  table does not have.
\<close>

definition system_message :: "env \<Rightarrow> client \<Rightarrow> exn + string" where
  "system_message ev st =
     (case (if cur_personality st \<noteq> [] then Inr (cur_personality st)
            else (case PERSONALITIES ev of [] \<Rightarrow> Inl IndexError | kv # kvs \<Rightarrow> Inr (fst kv))) of
        Inl e \<Rightarrow> Inl e
      | Inr k \<Rightarrow>
          (case map_of (PERSONALITIES ev) k of
             None \<Rightarrow> Inl (KeyError k)
           | Some p \<Rightarrow>
               Inr (SYSTEM_MESSAGE ev @ '' '' @ p @
                    (if add_sys_msg st \<noteq> [] then '' '' @ add_sys_msg st else []))))"

text \<open>
  \<open>create_completion_request(message, self.session_data)\<close>: \<open>history\<close> is the client's own
  list, so \<open>history.append\<close> adds the user turn to \<open>session_data\<close> before the request is
  built.
\<close>

definition create_completion_request :: "env \<Rightarrow> client \<Rightarrow> string \<Rightarrow> client \<times> (exn + request)" where
  "create_completion_request ev st last_message =
     (let st1 = st\<lparr>session_data :=
                  session_data st @ [\<lparr>role = USER, content = last_message, personality = None\<rparr>]\<rparr>
      in (st1,
          case system_message ev st1 of
            Inl e \<Rightarrow> Inl e
          | Inr sm \<Rightarrow>
              Inr \<lparr>req_model = ''gpt-4o-mini'',
                   req_messages = (SYSTEM, sm) # map (\<lambda>e. (role e, content e)) (session_data st1),
                   req_max_tokens = max_tokens st1\<rparr>))"

text \<open>\<open>get_response_from_chatgpt\<close>: the new state, the reply and the receiver's role.\<close>

definition get_response_from_chatgpt :: "env \<Rightarrow> client \<Rightarrow> string \<Rightarrow> client \<times> string \<times> string" where
  "get_response_from_chatgpt ev st message =
     (case create_completion_request ev st message of
        (st1, Inl e) \<Rightarrow>
          (st1\<lparr>popups := popups st1 @ [PopupErrorOccurred (Raised e)]\<rparr>, SORRY_REPLY, SYSTEM)
      | (st1, Inr req) \<Rightarrow>
          (case create ev req of
             Inl msg \<Rightarrow>
               (st1\<lparr>requests := requests st1 @ [req],
                     popups := popups st1 @ [PopupErrorOccurred (ProviderError msg)]\<rparr>,
                SORRY_REPLY, SYSTEM)
           | Inr reply \<Rightarrow> (st1\<lparr>requests := requests st1 @ [req]\<rparr>, strip reply, ASSISTANT)))"

section \<open>Saving and loading\<close>

definition save_current_session :: "env \<Rightarrow> client \<Rightarrow> client" where
  "save_current_session ev st =
     (if current_session st \<noteq> None \<and> current_session st \<noteq> Some [] \<and> \<not> temp_session_var st then
        write_file (path_join (sessions_dir st) (the (current_session st) @ ''.json''))
          (JsonFile \<lparr>json_model = Some (model st),
                     json_max_tokens = Some (max_tokens st),
                     json_system = Some (SYSTEM_MESSAGE ev),
                     json_personality = Some (cur_personality st),
                     json_add_sys_msg = Some (add_sys_msg st),
                     json_history = Some (session_data st)\<rparr>) st
      else st)"

text \<open>
  The replay loop of \<open>load_session\<close> over the loaded history (source lines 850 to 865),
  with the flag
  \<open>is_continued\<close>. An entry whose role maps to \<open>SYSTEM_NAME\<close> is passed over by
  \<open>continue\<close> before the \<open>append\<close>.
\<close>

fun load_loop :: "entry list \<Rightarrow> bool \<Rightarrow> client \<Rightarrow> client \<times> exn option" where
  "load_loop [] is_continued st = (st, None)"
| "load_loop (e # es) is_continued st =
     (case ROLE_MAP (role e) of
        None \<Rightarrow> (st, Some (KeyError (role e)))
      | Some r \<Rightarrow>
          if r = ASSISTANT_NAME \<and> is_continued then
            (case update_chat_display st (content e) None True of
               Inl x \<Rightarrow> (st, Some x)
             | Inr st1 \<Rightarrow> load_loop es False (st1\<lparr>session_data := session_data st1 @ [e]\<rparr>))
          else if r = SYSTEM_NAME then load_loop es is_continued st
          else if r = USER_NAME \<and> content e = CONTINUE then
            load_loop es True (st\<lparr>session_data := session_data st @ [e]\<rparr>)
          else
            (case update_chat_display st (content e) (Some r) False of
               Inl x \<Rightarrow> (st, Some x)
             | Inr st1 \<Rightarrow> load_loop es is_continued (st1\<lparr>session_data := session_data st1 @ [e]\<rparr>)))"

text \<open>
  \<open>load_session(name)\<close>; \<open>chosen\<close> is what the file dialog returns when it is asked (the
  empty string when it is cancelled).
\<close>

definition load_session :: "client \<Rightarrow> string option \<Rightarrow> string \<Rightarrow> client \<times> exn option" where
  "load_session st name chosen =
     (let session_file =
            (if name \<noteq> None \<and> name \<noteq> Some [] \<and> path_exists st (the name) then the name else chosen)
      in if session_file = [] then (st, None)
         else
           (case map_of (files st) session_file of
              None \<Rightarrow> (st, Some (FileNotFoundError session_file))
            | Some (TextFile t) \<Rightarrow> (st, Some JSONDecodeError)
            | Some (JsonFile data) \<Rightarrow>
                load_loop (case json_history data of Some h \<Rightarrow> h | None \<Rightarrow> []) False
                  (st\<lparr>model := (case json_model data of Some v \<Rightarrow> v | None \<Rightarrow> model st),
                      cur_personality :=
                        (case json_personality data of Some v \<Rightarrow> v | None \<Rightarrow> cur_personality st),
                      add_sys_msg :=
                        (case json_add_sys_msg data of Some v \<Rightarrow> v | None \<Rightarrow> add_sys_msg st),
                      max_tokens :=
                        (case json_max_tokens data of Some v \<Rightarrow> v | None \<Rightarrow> max_tokens st),
                      current_session := Some (str_replace ''.json'' [] (basename session_file)),
                      chat_display := []\<rparr>)))"

section \<open>Sending and continuing\<close>

text \<open>
  \<open>get_and_update_response\<close>. The reply is appended to \<open>session_data\<close> before it is
  displayed, and the session is saved after: when the display raises, the turn is in
  memory and not on disk.
\<close>

definition get_and_update_response ::
  "env \<Rightarrow> client \<Rightarrow> string \<Rightarrow> string option \<Rightarrow> bool \<Rightarrow> client \<times> exn option"
where
  "get_and_update_response ev st message sender add_space =
     (case get_response_from_chatgpt ev st message of
        (st1, response0, receiver) \<Rightarrow>
          (let response = remove_markdown (strip (collapse_newlines response0));
               st2 = st1\<lparr>session_data :=
                          session_data st1 @
                            [\<lparr>role = receiver, content = response,
                              personality = Some (cur_personality st1)\<rparr>]\<rparr>;
               sender1 = (if sender = None \<and> receiver \<in> set [DEBUG_NAME, SYSTEM_NAME]
                          then Some receiver else sender)
           in case update_chat_display st2 response sender1 add_space of
                Inl x \<Rightarrow> (st2, Some x)
              | Inr st3 \<Rightarrow> (save_current_session ev st3, None)))"

definition continue_message :: "env \<Rightarrow> client \<Rightarrow> client \<times> exn option" where
  "continue_message ev st =
     (if session_data st = [] then
        (popup_info ''Error'' ''No messages to continue.'' True st, None)
      else if role (last (session_data st)) \<notin> set [ASSISTANT, USER] then
        (popup_info ''Error'' ''You cannot continue from this message.'' True st, None)
      else if role (last (session_data st)) = ASSISTANT then
        get_and_update_response ev st CONTINUE None True
      else get_and_update_response ev st CONTINUE (Some ASSISTANT_NAME) False)"


section \<open>Exporting\<close>

definition FOUNTAIN :: string where "FOUNTAIN = ''fountain''"
definition HTML :: string where "HTML = ''html''"
definition JSON :: string where "JSON = ''json''"
definition MARKDOWN :: string where "MARKDOWN = ''md''"
definition PTEXT :: string where "PTEXT = ''txt''"
definition DEF_LENGTH :: int where "DEF_LENGTH = 60"

text \<open>
  The plain-text loop \<open>for entry in data\<close> (source lines 766 to 776): the reflowed
  content and a newline are added to \<open>fout\<close> first, then the role decides what follows.
\<close>

fun plain_text_loop :: "int \<Rightarrow> export_entry list \<Rightarrow> string \<Rightarrow> string" where
  "plain_text_loop len [] fout = fout"
| "plain_text_loop len (entry # rest) fout =
     (case to_line_length (split_on NL (e_content entry)) len of
        (lines, maxlength) \<Rightarrow>
          plain_text_loop len rest
            (if e_role entry = USER
               then (fout @ lines @ [NL]) @ replicate (nat maxlength) (CHR ''-'') @ [NL]
             else if e_role entry = SYSTEM then fout @ lines @ [NL]
             else (fout @ lines @ [NL]) @ [NL]))"

text \<open>The Markdown loop (source lines 782 to 790): only here is a system entry left out
  of \<open>fout\<close>.\<close>

fun markdown_loop :: "export_entry list \<Rightarrow> string \<Rightarrow> string" where
  "markdown_loop [] fout = fout"
| "markdown_loop (entry # rest) fout =
     markdown_loop rest
       (if e_role entry \<noteq> SYSTEM
        then fout @ ''**'' @ (if e_role entry = USER then ''query'' else ''response'') @ '':** '' @
               join ('' '' @ '' '' @ [NL]) (split_on NL (e_content entry)) @ [NL, NL]
        else fout)"

text \<open>
  \<open>export_session(name)\<close>. The answers of the dialogs are parameters: \<open>dialog_file\<close> is
  the destination the save dialog returns when \<open>name\<close> is not given, \<open>overwrite\<close> the
  answer to the overwrite question, \<open>line_length\<close> the integer the line-length dialog
  returns, and \<open>chosen\<close> the file the load dialog returns when the session is empty.
  After the pop-up for an extension outside the list the method goes on.
\<close>

definition export_session ::
  "env \<Rightarrow> client \<Rightarrow> string option \<Rightarrow> string \<Rightarrow> bool \<Rightarrow> int \<Rightarrow> string \<Rightarrow> client \<times> exn option"
where
  "export_session ev st0 name dialog_file overwrite line_length chosen =
     (case (if session_data st0 = [] then load_session st0 None chosen else (st0, None)) of
        (st, Some x) \<Rightarrow> (st, Some x)
      | (st, None) \<Rightarrow>
          (let session_file = (if name \<noteq> None \<and> name \<noteq> Some [] then the name else dialog_file) in
           if session_file = [] then (st, None)
           else if path_exists st session_file \<and> \<not> overwrite then (st, None)
           else
             (let ext0 = lower (drop 1 (snd (splitext session_file)));
                  known = (ext0 \<in> set [FOUNTAIN, HTML, JSON, MARKDOWN, PTEXT, []]);
                  st1 = (if known then st else popup_info ''Error'' ''Invalid file extension.'' True st);
                  file_extension = (if known \<and> ext0 = [] then PTEXT else ext0)
              in case (if file_extension \<noteq> JSON then normalize (session_data st1) else Inr []) of
                   Inl x \<Rightarrow> (st1, Some x)
                 | Inr data \<Rightarrow>
                     (let fout =
                            (if file_extension = PTEXT then
                               plain_text_loop (if line_length \<noteq> 0 then line_length else DEF_LENGTH)
                                 data []
                             else if file_extension = MARKDOWN then markdown_loop data []
                             else []);
                          st2 =
                            (if file_extension = JSON then
                               write_file session_file
                                 (JsonFile \<lparr>json_model = Some (model st1),
                                            json_max_tokens = Some (max_tokens st1),
                                            json_system = Some (SYSTEM_MESSAGE ev),
                                            json_personality = Some (cur_personality st1),
                                            json_add_sys_msg = Some (add_sys_msg st1),
                                            json_history = Some (session_data st1)\<rparr>) st1
                             else write_file session_file (TextFile (rstrip fout @ [NL])) st1)
                      in (st2\<lparr>popups := popups st2 @
                                 [PopupOkCustom ''Exported'' ''Session exported successfully.'']\<rparr>,
                          None)))))"


section \<open>Auxiliary notions for the statements about the reflow engine\<close>

text \<open>
  The output lines \<open>outarr + [line2]\<close> that one source line contributes, before they are
  joined; they do not depend on the running \<open>maxlength\<close>.
\<close>

definition wrapped :: "int \<Rightarrow> string \<Rightarrow> string list" where
  "wrapped len line =
     (case wrap_words len (indentation_of line) (str_split line) ([], indentation_of line, 0) of
        (outarr, line2, m) \<Rightarrow> outarr @ [line2])"

text \<open>
  A line that the engine leaves as it is: no leading or trailing white space, single
  spaces between its words, at most \<open>len\<close> characters, and a first word shorter than
  \<open>len\<close>.
\<close>

definition wrapped_ok :: "int \<Rightarrow> string \<Rightarrow> bool" where
  "wrapped_ok len l =
     (l = join [CHR 0x20] (str_split l) \<and> int (length l) \<le> len \<and>
      (l = [] \<or> int (length (hd (str_split l))) < len))"

section \<open>Auxiliary notions for the statements about sessions\<close>

text \<open>
  The two pop-ups with which \<open>continue_message\<close> turns a request down. The specification
  calls these failures \<open>NothingToContinue\<close> and \<open>NotContinuable\<close>.
\<close>

definition NothingToContinue :: popup where
  "NothingToContinue = PopupInfo ''Error'' ''No messages to continue.'' True"

definition NotContinuable :: popup where
  "NotContinuable = PopupInfo ''Error'' ''You cannot continue from this message.'' True"

text \<open>
  A turn that \<open>load_session\<close> replays and keeps: a user turn, or an assistant turn whose
  content is not blank.
\<close>

definition replayable :: "entry \<Rightarrow> bool" where
  "replayable e = (role e = USER \<or> role e = ASSISTANT \<and> strip (content e) \<noteq> [])"

section \<open>Example sessions\<close>

text \<open>
  A provider that answers every request with \<open>a story\<close>, and a client as \<open>__init__\<close>
  and \<open>new_session\<close> leave it, with the default personality.
\<close>

definition ex_env :: env where
  "ex_env =
     \<lparr>SYSTEM_MESSAGE = ''You are a general purpose helper.'',
      PERSONALITIES = [(''neutral'', ''Act according to your default behaviour.'')],
      create = (\<lambda>r. Inr ''a story'')\<rparr>"

definition ex_client :: client where
  "ex_client =
     \<lparr>add_sys_msg = [], cur_personality = ''neutral'', max_tokens = 150,
      model = ''gpt-4o-mini'', sessions_dir = ''sessions'',
      current_session = Some ''20250101120000'', session_data = [], chat_display = [],
      temp_session_var = False, files = [], popups = [], requests = []\<rparr>"

text \<open>The turns of a reply that was continued once.\<close>

definition ex_story :: "entry list" where
  "ex_story =
     [\<lparr>role = USER, content = ''Tell me a story'', personality = None\<rparr>,
      \<lparr>role = ASSISTANT, content = ''Once upon a'', personality = Some ''neutral''\<rparr>,
      \<lparr>role = USER, content = CONTINUE, personality = None\<rparr>,
      \<lparr>role = ASSISTANT, content = ''time...'', personality = Some ''neutral''\<rparr>]"

definition ex_story_client :: client where
  "ex_story_client = ex_client\<lparr>session_data := ex_story, add_sys_msg := ''Be brief.'', max_tokens := 300\<rparr>"

text \<open>A session whose last turn is the user's.\<close>

definition ex_user_last :: client where
  "ex_user_last =
     ex_client\<lparr>session_data := [\<lparr>role = USER, content = ''Tell me'', personality = None\<rparr>],
                chat_display := ''  __You: Tell me''\<rparr>"

text \<open>
  A session after a request that failed: \<open>get_and_update_response\<close> stored the
  placeholder reply with the role \<open>system\<close>.
\<close>

definition ex_failed :: client where
  "ex_failed =
     ex_client\<lparr>session_data :=
                  [\<lparr>role = USER, content = ''hi'', personality = None\<rparr>,
                   \<lparr>role = SYSTEM, content = SORRY_REPLY, personality = Some ''neutral''\<rparr>]\<rparr>"

text \<open>A client with one turn in memory and a saved document of the failed session.\<close>

definition ex_loading :: client where
  "ex_loading =
     ex_client
       \<lparr>session_data := [\<lparr>role = USER, content = ''earlier'', personality = None\<rparr>],
        files :=
          [(''sessions/failed.json'',
            JsonFile \<lparr>json_model = None, json_max_tokens = Some 300, json_system = None,
                       json_personality = None, json_add_sys_msg = Some ''Be brief.'',
                       json_history = Some (session_data ex_failed)\<rparr>)]\<rparr>"

section \<open>Facts about splitting and joining\<close>

lemma split_on_not_Nil: "split_on d s \<noteq> []"
  by (induction s) (auto split: list.splits)

lemma split_on_append_sep: "split_on d (a @ d # b) = split_on d a @ split_on d b"
proof (induction a)
  case Nil
  show ?case by simp
next
  case (Cons c a)
  obtain l ls where "split_on d a = l # ls"
    using split_on_not_Nil [of d a] by (cases "split_on d a") auto
  with Cons show ?case by simp
qed

lemma split_on_no_sep: "d \<notin> set s \<Longrightarrow> split_on d s = [s]"
  by (induction s) auto

lemma split_on_join: "xs \<noteq> [] \<Longrightarrow> split_on d (join [d] xs) = concat (map (split_on d) xs)"
  by (induction "[d]" xs rule: join.induct) (simp_all add: split_on_append_sep)

lemma join_split_on: "join [d] (split_on d s) = s"
proof (induction s)
  case Nil
  show ?case by simp
next
  case (Cons c s)
  obtain l ls where e: "split_on d s = l # ls"
    using split_on_not_Nil [of d s] by (cases "split_on d s") auto
  show ?case
  proof (cases "c = d")
    case True
    with Cons e show ?thesis by simp
  next
    case False
    with Cons e show ?thesis by (cases ls) auto
  qed
qed

lemma split_on_sep_free: "x \<in> set (split_on d s) \<Longrightarrow> d \<notin> set x"
proof (induction s arbitrary: x)
  case Nil
  then show ?case by simp
next
  case (Cons c s)
  then show ?case by (auto split: if_splits list.splits)
qed



lemma split_words_props:
  "x \<in> set (split_words w s) \<Longrightarrow> list_all (\<lambda>c. \<not> isspace c) w \<Longrightarrow>
     x \<noteq> [] \<and> list_all (\<lambda>c. \<not> isspace c) x"
proof (induction s arbitrary: w)
  case Nil
  then show ?case by (cases "w = []") simp_all
next
  case (Cons c cs)
  show ?case
  proof (cases "isspace c")
    case True
    show ?thesis
    proof (cases "w = []")
      case True
      with \<open>isspace c\<close> Cons.prems have "x \<in> set (split_words [] cs)" by simp
      then show ?thesis using Cons.IH [of "[]"] by simp
    next
      case False
      with \<open>isspace c\<close> Cons.prems have "x = w \<or> x \<in> set (split_words [] cs)" by simp
      then show ?thesis using Cons.IH [of "[]"] False Cons.prems(2) by auto
    qed
  next
    case False
    with Cons.prems have "x \<in> set (split_words (w @ [c]) cs)" by simp
    moreover have "list_all (\<lambda>c. \<not> isspace c) (w @ [c])" using False Cons.prems(2) by simp
    ultimately show ?thesis using Cons.IH [of "w @ [c]"] by simp
  qed
qed

lemma str_split_props: "x \<in> set (str_split s) \<Longrightarrow> x \<noteq> [] \<and> list_all (\<lambda>c. \<not> isspace c) x"
  unfolding str_split_def using split_words_props [of x "[]" s] by simp

lemma isspace_NL: "isspace NL"
  by (simp add: isspace_def NL_def)

lemma isspace_SP: "isspace (CHR 0x20)"
  by (simp add: isspace_def)




lemma wrap_words_indep:
  "fst (wrap_words len ind ws (out, l2, m)) = fst (wrap_words len ind ws (out, l2, n)) \<and>
   fst (snd (wrap_words len ind ws (out, l2, m))) = fst (snd (wrap_words len ind ws (out, l2, n)))"
proof (induction ws arbitrary: out l2 m n)
  case Nil
  show ?case by simp
next
  case (Cons w ws)
  show ?case
  proof (cases "int (length l2) + int (length w) + 1 > len")
    case True
    then show ?thesis using Cons.IH by simp
  next
    case False
    then show ?thesis using Cons.IH by simp
  qed
qed

lemma fst_wrap_line: "fst (wrap_line len line m) = join [NL] (wrapped len line)"
proof -
  obtain a b c where e: "wrap_words len (indentation_of line) (str_split line) ([], indentation_of line, m) = (a, b, c)"
    by (cases "wrap_words len (indentation_of line) (str_split line) ([], indentation_of line, m)") auto
  obtain a' b' c' where e': "wrap_words len (indentation_of line) (str_split line) ([], indentation_of line, 0) = (a', b', c')"
    by (cases "wrap_words len (indentation_of line) (str_split line) ([], indentation_of line, 0)") auto
  from wrap_words_indep [of len "indentation_of line" "str_split line" "[]" "indentation_of line" m 0] e e'
  have "a = a'" "b = b'" by simp_all
  with e e' show ?thesis by (simp add: wrap_line_def wrapped_def)
qed

lemma fst_wrap_lines:
  "fst (wrap_lines len lines (stmp, m)) = stmp @ map (\<lambda>l. join [NL] (wrapped len l)) lines"
proof (induction lines arbitrary: stmp m)
  case Nil
  show ?case by simp
next
  case (Cons l ls)
  obtain s m' where e: "wrap_line len l m = (s, m')" by (cases "wrap_line len l m") auto
  then have "s = join [NL] (wrapped len l)" using fst_wrap_line [of len l m] by simp
  with e Cons.IH [of "stmp @ [s]" m'] show ?case by simp
qed

lemma fst_to_line_length:
  "fst (to_line_length lines len) = join [NL] (map (\<lambda>l. join [NL] (wrapped len l)) lines)"
proof -
  obtain a b where e: "wrap_lines len lines ([], 0) = (a, b)" by (cases "wrap_lines len lines ([], 0)") auto
  then have "a = map (\<lambda>l. join [NL] (wrapped len l)) lines"
    using fst_wrap_lines [of len lines "[]" 0] by simp
  with e show ?thesis by (simp add: to_line_length_def)
qed

lemma wrap_words_shape:
  "wrap_words len ind ws (out, l2, m) = (out', l2', m') \<Longrightarrow> p \<in> set (out' @ [l2']) \<Longrightarrow>
     p \<in> set (out @ [l2]) \<or> int (length p) \<le> len \<or> p \<in> (\<lambda>w. ind @ w) ` set ws"
proof (induction ws arbitrary: out l2 m)
  case Nil
  then show ?case by simp
next
  case (Cons w ws)
  show ?case
  proof (cases "int (length l2) + int (length w) + 1 > len")
    case True
    with Cons.prems(1) have
      "wrap_words len ind ws (out @ [l2], ind @ w,
         if m < int (length l2) then int (length l2) else m) = (out', l2', m')"
      by simp
    from Cons.IH [OF this Cons.prems(2)] show ?thesis by auto
  next
    case False
    let ?l = "l2 @ (if l2 \<noteq> [] then CHR 0x20 # w else w)"
    from False Cons.prems(1) have "wrap_words len ind ws (out, ?l, m) = (out', l2', m')"
      by simp
    from Cons.IH [OF this Cons.prems(2)]
    have "p \<in> set (out @ [?l]) \<or> int (length p) \<le> len \<or> p \<in> (\<lambda>w. ind @ w) ` set ws" .
    moreover have "int (length ?l) \<le> len" using False by simp
    ultimately show ?thesis by auto
  qed
qed

lemma wrapped_shape:
  assumes "p \<in> set (wrapped len line)"
  shows "int (length p) \<le> len \<or> p = indentation_of line \<or>
         p \<in> (\<lambda>w. indentation_of line @ w) ` set (str_split line)"
proof -
  obtain a b c where e: "wrap_words len (indentation_of line) (str_split line) ([], indentation_of line, 0) = (a, b, c)"
    by (cases "wrap_words len (indentation_of line) (str_split line) ([], indentation_of line, 0)") auto
  with assms have "p \<in> set (a @ [b])" by (simp add: wrapped_def)
  from wrap_words_shape [OF e this] show ?thesis by auto
qed

lemma wrap_words_sep_free:
  "wrap_words len ind ws (out, l2, m) = (out', l2', m') \<Longrightarrow> NL \<notin> set ind \<Longrightarrow>
   list_all (\<lambda>w. NL \<notin> set w) ws \<Longrightarrow> list_all (\<lambda>w. NL \<notin> set w) (out @ [l2]) \<Longrightarrow>
   list_all (\<lambda>w. NL \<notin> set w) (out' @ [l2'])"
proof (induction ws arbitrary: out l2 m)
  case Nil
  then show ?case by simp
next
  case (Cons w ws)
  have nl: "NL \<noteq> CHR 0x20" by (simp add: NL_def)
  show ?case
  proof (cases "int (length l2) + int (length w) + 1 > len")
    case True
    with Cons.prems(1) have
      "wrap_words len ind ws (out @ [l2], ind @ w,
         if m < int (length l2) then int (length l2) else m) = (out', l2', m')"
      by simp
    moreover have "list_all (\<lambda>w. NL \<notin> set w) ((out @ [l2]) @ [ind @ w])"
      using Cons.prems by simp
    ultimately show ?thesis using Cons.IH Cons.prems by simp
  next
    case False
    let ?l = "l2 @ (if l2 \<noteq> [] then CHR 0x20 # w else w)"
    from False Cons.prems(1) have "wrap_words len ind ws (out, ?l, m) = (out', l2', m')"
      by simp
    moreover have "list_all (\<lambda>w. NL \<notin> set w) (out @ [?l])"
      using Cons.prems nl by simp
    ultimately show ?thesis using Cons.IH Cons.prems by simp
  qed
qed




lemma wrapped_not_Nil: "wrapped len line \<noteq> []"
  by (cases "wrap_words len (indentation_of line) (str_split line) ([], indentation_of line, 0)")
     (simp add: wrapped_def)

lemma wrapped_sep_free:
  assumes "NL \<notin> set line" and "p \<in> set (wrapped len line)"
  shows "NL \<notin> set p"
proof -
  obtain a b c where e: "wrap_words len (indentation_of line) (str_split line) ([], indentation_of line, 0) = (a, b, c)"
    by (cases "wrap_words len (indentation_of line) (str_split line) ([], indentation_of line, 0)") auto
  have i: "NL \<notin> set (indentation_of line)"
    using assms(1) set_takeWhileD [of NL isspace line] by (auto simp: indentation_of_def)
  have w: "list_all (\<lambda>w. NL \<notin> set w) (str_split line)"
    unfolding list_all_iff
  proof
    fix x assume "x \<in> set (str_split line)"
    then have "list_all (\<lambda>c. \<not> isspace c) x" using str_split_props by blast
    then show "NL \<notin> set x" using isspace_NL by (auto simp: list_all_iff)
  qed
  have "list_all (\<lambda>w. NL \<notin> set w) (a @ [b])"
    using wrap_words_sep_free [OF e i w] i by simp
  with assms(2) e show ?thesis by (auto simp: wrapped_def list_all_iff)
qed

lemma split_on_wrapped:
  assumes "NL \<notin> set line"
  shows "split_on NL (join [NL] (wrapped len line)) = wrapped len line"
proof -
  have "split_on NL (join [NL] (wrapped len line)) = concat (map (split_on NL) (wrapped len line))"
    using split_on_join [OF wrapped_not_Nil] .
  also have "map (split_on NL) (wrapped len line) = map (\<lambda>p. [p]) (wrapped len line)"
    using wrapped_sep_free [OF assms] split_on_no_sep [of NL] by (intro map_cong) auto
  also have "concat (map (\<lambda>p. [p]) (wrapped len line)) = wrapped len line"
    by (induction "wrapped len line") auto
  finally show ?thesis .
qed

lemma output_lines:
  "split_on NL (fst (to_line_length (split_on NL input) len)) =
     concat (map (wrapped len) (split_on NL input))"
proof -
  let ?ls = "split_on NL input"
  have "split_on NL (fst (to_line_length ?ls len)) =
          concat (map (split_on NL) (map (\<lambda>l. join [NL] (wrapped len l)) ?ls))"
    using split_on_join [of "map (\<lambda>l. join [NL] (wrapped len l)) ?ls" NL]
      split_on_not_Nil [of NL input] by (simp add: fst_to_line_length)
  also have "map (split_on NL) (map (\<lambda>l. join [NL] (wrapped len l)) ?ls) = map (wrapped len) ?ls"
    using split_on_wrapped split_on_sep_free [of _ NL input] by (simp add: comp_def)
  finally show ?thesis .
qed

lemma join_Cons_sp: "join [c] (w # ws) = w @ concat (map ((#) c) ws)"
  by (induction ws arbitrary: w) simp_all

lemma wrap_words_fits:
  "l2 \<noteq> [] \<Longrightarrow> int (length (l2 @ concat (map ((#) (CHR 0x20)) ws))) \<le> len \<Longrightarrow>
     wrap_words len ind ws (out, l2, m) = (out, l2 @ concat (map ((#) (CHR 0x20)) ws), m)"
proof (induction ws arbitrary: l2)
  case Nil
  show ?case by simp
next
  case (Cons w ws)
  have "\<not> int (length l2) + int (length w) + 1 > len" using Cons.prems(2) by simp
  moreover have "wrap_words len ind ws (out, l2 @ CHR 0x20 # w, m) =
      (out, (l2 @ CHR 0x20 # w) @ concat (map ((#) (CHR 0x20)) ws), m)"
    using Cons.prems by (intro Cons.IH) simp_all
  ultimately show ?case using Cons.prems(1) by simp
qed

lemma wrap_line_fixed:
  assumes "wrapped_ok len l"
  shows "wrap_line len l m = (l, max m (int (length l)))"
proof (cases "str_split l")
  case Nil
  with assms have "l = []" by (simp add: wrapped_ok_def)
  then show ?thesis using Nil by (simp add: wrap_line_def indentation_of_def max_def)
next
  case (Cons w ws)
  have w: "w \<noteq> []" "\<not> isspace (hd w)"
    using str_split_props [of w l] Cons by (auto simp: list_all_iff)
  have l: "l = w @ concat (map ((#) (CHR 0x20)) ws)"
    using assms Cons join_Cons_sp [of "CHR 0x20" w ws] by (simp add: wrapped_ok_def)
  then have "l \<noteq> []" using w by simp
  have "hd l = hd w" using l w by (metis hd_append2)
  then have i: "indentation_of l = []"
    using w \<open>l \<noteq> []\<close> by (cases l) (simp_all add: indentation_of_def)
  have f: "\<not> int (length ([]::string)) + int (length w) + 1 > len"
    using assms Cons \<open>l \<noteq> []\<close> by (simp add: wrapped_ok_def)
  have "int (length (w @ concat (map ((#) (CHR 0x20)) ws))) \<le> len"
    using assms l by (simp add: wrapped_ok_def)
  from wrap_words_fits [OF w(1) this]
  have "wrap_words len [] ws ([], w, m) = ([], l, m)" using l by simp
  then have "wrap_words len [] (w # ws) ([], [], m) = ([], l, m)" using f by simp
  then show ?thesis using i Cons by (simp add: wrap_line_def max_def)
qed

lemma wrap_lines_fixed:
  "list_all (wrapped_ok len) ls \<Longrightarrow>
     wrap_lines len ls (stmp, m) = (stmp @ ls, fold (\<lambda>l m. max m (int (length l))) ls m)"
proof (induction ls arbitrary: stmp m)
  case Nil
  show ?case by simp
next
  case (Cons l ls)
  then show ?case using wrap_line_fixed [of len l m] by simp
qed


section \<open>The reflow engine: width of the output lines\<close>

text \<open>
  Claim C2 (as amended). For every input text and every width, each line of the reflowed
  text is at most \<open>len\<close> characters long, unless it is the leading indentation of one of
  the source lines, alone or followed by exactly one word of that line. The engine never
  shortens an indentation and never splits a word, and it closes the running line even
  when that line holds nothing but the indentation.
\<close>

theorem reflow_width_bound:
  assumes "out_line \<in> set (split_on NL (fst (to_line_length (split_on NL input) len)))"
  shows "int (length out_line) \<le> len \<or>
         (\<exists>line\<in>set (split_on NL input).
            out_line = indentation_of line \<or>
            (\<exists>w\<in>set (str_split line). out_line = indentation_of line @ w))"
proof -
  from assms obtain line where l: "line \<in> set (split_on NL input)" and p: "out_line \<in> set (wrapped len line)"
    unfolding output_lines by auto
  from wrapped_shape [OF p] l show ?thesis by blast
qed

text \<open>The bound at width 10: the second output line is an indentation with one word.\<close>

theorem reflow_width_bound_witness:
  "''    abcdefgh'' \<in> set (split_on NL (fst (to_line_length (split_on NL ''    abcdefgh xy'') 10))) \<and>
   (int (length ''    abcdefgh'') \<le> 10 \<or>
    (\<exists>line\<in>set (split_on NL ''    abcdefgh xy'').
       ''    abcdefgh'' = indentation_of line \<or>
       (\<exists>w\<in>set (str_split line). ''    abcdefgh'' = indentation_of line @ w)))"
proof -
  have h: "''    abcdefgh'' \<in> set (split_on NL (fst (to_line_length (split_on NL ''    abcdefgh xy'') 10)))"
    by code_simp
  from reflow_width_bound [OF h] h show ?thesis by blast
qed

text \<open>
  The claim as it was stated fails at width 40: the only word has 39 characters, so the
  width is at least the longest word, and the second output line has 43 characters.
\<close>

theorem reflow_width_counterexample:
  "fst (to_line_length (split_on NL ''    print(some_function_name(argument_one))'') 40) =
     ''    \<newline>    print(some_function_name(argument_one))'' \<and>
   length ''    print(some_function_name(argument_one))'' = 43 \<and>
   str_split ''    print(some_function_name(argument_one))'' =
     [''print(some_function_name(argument_one))''] \<and>
   length ''print(some_function_name(argument_one))'' = 39"
  by code_simp

section \<open>The reflow engine: texts it leaves unchanged\<close>

text \<open>
  Claim C8 (as amended). A text is returned unchanged, with the length of its longest
  line as the reported width, when each of its lines satisfies \<open>wrapped_ok\<close>: no leading
  or trailing white space, single spaces between the words, at most \<open>len\<close> characters,
  and a first word shorter than \<open>len\<close>.
\<close>

theorem reflow_fixed_point:
  assumes "list_all (wrapped_ok len) (split_on NL input)"
  shows "to_line_length (split_on NL input) len =
           (input, fold (\<lambda>l m. max m (int (length l))) (split_on NL input) 0)"
  using wrap_lines_fixed [OF assms, of "[]" 0] join_split_on [of NL input]
  by (simp add: to_line_length_def)

theorem reflow_fixed_point_witness:
  "list_all (wrapped_ok 40) (split_on NL ''Once upon a time\<newline>\<newline>there was a program.'') \<and>
   to_line_length (split_on NL ''Once upon a time\<newline>\<newline>there was a program.'') 40 =
     (''Once upon a time\<newline>\<newline>there was a program.'', 20)"
proof -
  have h: "list_all (wrapped_ok 40) (split_on NL ''Once upon a time\<newline>\<newline>there was a program.'')"
    by code_simp
  have "fold (\<lambda>l m. max m (int (length l)))
          (split_on NL ''Once upon a time\<newline>\<newline>there was a program.'') 0 = 20"
    by code_simp
  with reflow_fixed_point [OF h] h show ?thesis by simp
qed

text \<open>
  The engine's own output is not always such a text. An indented line comes back with
  one more space after each pass, and a line that starts with a word of exactly the
  width comes back with an empty line before it.
\<close>

theorem reflow_idempotence_counterexample:
  "fst (to_line_length (split_on NL ''  foo'') 40) = ''   foo'' \<and>
   fst (to_line_length (split_on NL ''   foo'') 40) = ''    foo'' \<and>
   fst (to_line_length (split_on NL ''See https://example.org/a/very/long/path.htm'') 40) =
     ''See\<newline>https://example.org/a/very/long/path.htm'' \<and>
   fst (to_line_length (split_on NL ''See\<newline>https://example.org/a/very/long/path.htm'') 40) =
     ''See\<newline>\<newline>https://example.org/a/very/long/path.htm''"
  by code_simp

section \<open>Export normalization: the continuation merge\<close>

lemma add_space_when_needed_Cons:
  "message \<noteq> [] \<Longrightarrow>
     add_space_when_needed message =
       Inr (if hd message \<in> set ''.,!?:;'' then message else CHR 0x20 # message)"
  by (cases message) (simp_all add: add_space_when_needed_def)

lemma normalize_step_merge:
  assumes "data \<noteq> []" and "content sd \<noteq> []"
  shows "normalize_step (True, data) sd =
           Inr (False,
                butlast data @
                  [(last data)\<lparr>e_content := e_content (last data) @
                     (if hd (content sd) \<in> set ''.,!?:;'' then content sd
                      else CHR 0x20 # content sd)\<rparr>])"
proof -
  obtain d ds where "data = d # ds" using assms(1) by (cases data) auto
  then show ?thesis
    using add_space_when_needed_Cons [OF assms(2)] by (simp add: normalize_step_def)
qed

lemma normalize_step_sentinel:
  "role t = USER \<Longrightarrow> content t \<in> set [CONTINUE, []] \<Longrightarrow> normalize_step (False, data) t = Inr (True, data)"
  by (simp add: normalize_step_def)

lemma normalize_step_merge_fails:
  "(normalize_step (True, data) sd = Inl IndexError) = (data = [] \<or> content sd = [])"
proof (cases "data = [] \<or> content sd = []")
  case True
  then show ?thesis
    by (cases data) (auto simp: normalize_step_def add_space_when_needed_def)
next
  case False
  then show ?thesis using normalize_step_merge [of data sd] by simp
qed

lemma normalize_loop_append:
  "normalize_loop (xs @ ys) st =
     (case normalize_loop xs st of Inl e \<Rightarrow> Inl e | Inr st1 \<Rightarrow> normalize_loop ys st1)"
  by (induction xs arbitrary: st) (simp_all split: sum.splits)

lemma strip_Nil: "strip [] = []"
  by (simp add: strip_def lstrip_def rstrip_def)

lemma update_chat_display_join:
  assumes "strip message \<noteq> []"
  shows "update_chat_display st message None True =
           Inr (st\<lparr>chat_display := chat_display st @
                  (if hd (strip message) \<in> set ''.,!?:;'' then strip message
                   else CHR 0x20 # strip message)\<rparr>)"
  using add_space_when_needed_Cons [OF assms]
  by (simp add: update_chat_display_def format_chat_message_def)

text \<open>
  Claim C6. Whenever continuation content is merged into the previous entry, it is joined
  to the previous content with exactly one inserted space, unless it begins with one of
  the characters \<open>. , ! ? : ;\<close>, in which case nothing is inserted. At export time this
  is the step of the normalization with the flag \<open>is_continue\<close> set: the content of the
  turn is joined to the content of the last entry. At display time it is
  \<open>update_chat_display\<close> for a message without a sender and with \<open>add_space\<close>, live and
  in the replay of \<open>load_session\<close>: the stripped message is joined to the text the chat
  display holds, and nothing else of the client changes. The last conjunct is the same
  rule for the value \<open>format_chat_message\<close> returns.
\<close>

theorem continuation_join_rule:
  assumes "content sd \<noteq> []" and "data \<noteq> []" and "strip message \<noteq> []" and "m \<noteq> []"
  shows "normalize_step (True, data) sd =
           Inr (False,
                butlast data @
                  [(last data)\<lparr>e_content := e_content (last data) @
                     (if hd (content sd) \<in> set ''.,!?:;'' then content sd
                      else CHR 0x20 # content sd)\<rparr>])
         \<and> update_chat_display st message None True =
           Inr (st\<lparr>chat_display := chat_display st @
                  (if hd (strip message) \<in> set ''.,!?:;'' then strip message
                   else CHR 0x20 # strip message)\<rparr>)
         \<and> format_chat_message st m None True =
           Inr (if hd m \<in> set ''.,!?:;'' then m else CHR 0x20 # m)"
  using normalize_step_merge [OF assms(2) assms(1)] update_chat_display_join [OF assms(3)]
    add_space_when_needed_Cons [OF assms(4)]
  by (simp add: format_chat_message_def)

text \<open>
  The scenario of the continued story: a space is inserted before \<open>time...\<close>, in the
  export and in the display, where the message is stripped first; nothing is inserted
  before a comma. The replay of the saved story shows the joined reply.
\<close>

theorem continuation_join_rule_witness:
  "content (ex_story ! 3) \<noteq> [] \<and>
   normalize_step (True, [\<lparr>e_role = USER, e_content = ''Tell me a story''\<rparr>,
                          \<lparr>e_role = ''neutral'', e_content = ''Once upon a''\<rparr>]) (ex_story ! 3) =
     Inr (False, [\<lparr>e_role = USER, e_content = ''Tell me a story''\<rparr>,
                  \<lparr>e_role = ''neutral'', e_content = ''Once upon a time...''\<rparr>]) \<and>
   strip ''  time...\<newline>'' \<noteq> [] \<and>
   update_chat_display (ex_client\<lparr>chat_display := ''MyPyGPT: Once upon a''\<rparr>)
       ''  time...\<newline>'' None True =
     Inr (ex_client\<lparr>chat_display := ''MyPyGPT: Once upon a time...''\<rparr>) \<and>
   format_chat_message (ex_client\<lparr>chat_display := ''MyPyGPT: Once upon a''\<rparr>)
       '', and more'' None True = Inr '', and more'' \<and>
   normalize ex_story =
     Inr [\<lparr>e_role = USER, e_content = ''Tell me a story''\<rparr>,
          \<lparr>e_role = ''neutral'', e_content = ''Once upon a time...''\<rparr>] \<and>
   chat_display (fst (load_session ((save_current_session ex_env ex_story_client)\<lparr>session_data := []\<rparr>)
                        (Some ''sessions/20250101120000.json'') [])) =
     ''  __You: Tell me a story\<newline>MyPyGPT: Once upon a time...''"
proof -
  have c: "content (ex_story ! 3) \<noteq> []" by (simp add: ex_story_def)
  have d: "[\<lparr>e_role = USER, e_content = ''Tell me a story''\<rparr>,
            \<lparr>e_role = ''neutral'', e_content = ''Once upon a''\<rparr>] \<noteq> []" by simp
  have s: "strip ''  time...\<newline>'' = ''time...''" by code_simp
  then have s': "strip ''  time...\<newline>'' \<noteq> []" by simp
  have m: "'', and more'' \<noteq> []" by simp
  have n: "normalize ex_story =
     Inr [\<lparr>e_role = USER, e_content = ''Tell me a story''\<rparr>,
          \<lparr>e_role = ''neutral'', e_content = ''Once upon a time...''\<rparr>]"
    by code_simp
  have r: "chat_display (fst (load_session ((save_current_session ex_env ex_story_client)\<lparr>session_data := []\<rparr>)
                        (Some ''sessions/20250101120000.json'') [])) =
     ''  __You: Tell me a story\<newline>MyPyGPT: Once upon a time...''"
    by code_simp
  from continuation_join_rule
         [OF c d s' m, of "ex_client\<lparr>chat_display := ''MyPyGPT: Once upon a''\<rparr>"] c s n r
  show ?thesis
    by (simp add: ex_story_def)
qed

text \<open>
  Claim C9 (as amended). The merge step fails with an indexing error exactly when no
  entry has been emitted yet or the content to merge is empty. So the normalization of a
  stored sequence raises when its first turn is a user turn holding the continuation
  sentinel or nothing and a second turn follows, and when the turn after such a user
  turn has empty content.
\<close>

theorem normalize_merge_partial:
  "(normalize_step (True, data) sd = Inl IndexError) = (data = [] \<or> content sd = [])
   \<and> (role t = USER \<and> content t \<in> set [CONTINUE, []] \<longrightarrow>
        normalize (t # u # rest) = Inl IndexError)
   \<and> (normalize_loop pre (False, []) = Inr (False, data) \<and>
        role t = USER \<and> content t \<in> set [CONTINUE, []] \<and> content u = [] \<longrightarrow>
        normalize (pre @ t # u # rest) = Inl IndexError)"
proof (intro conjI impI)
  show "(normalize_step (True, data) sd = Inl IndexError) = (data = [] \<or> content sd = [])"
    by (rule normalize_step_merge_fails)
next
  assume a: "role t = USER \<and> content t \<in> set [CONTINUE, []]"
  then have "normalize_step (False, []) t = Inr (True, [])"
    using normalize_step_sentinel [of t "[]"] by simp
  moreover have "normalize_step (True, []) u = Inl IndexError"
    using normalize_step_merge_fails [of "[]" u] by simp
  ultimately show "normalize (t # u # rest) = Inl IndexError"
    by (simp add: normalize_def)
next
  assume a: "normalize_loop pre (False, []) = Inr (False, data) \<and>
        role t = USER \<and> content t \<in> set [CONTINUE, []] \<and> content u = []"
  then have "normalize_step (False, data) t = Inr (True, data)"
    using normalize_step_sentinel [of t data] by simp
  moreover have "normalize_step (True, data) u = Inl IndexError"
    using a normalize_step_merge_fails [of data u] by simp
  ultimately have "normalize_loop (t # u # rest) (False, data) = Inl IndexError"
    by simp
  then show "normalize (pre @ t # u # rest) = Inl IndexError"
    using a by (simp add: normalize_def normalize_loop_append)
qed

theorem normalize_merge_partial_witness:
  "normalize [\<lparr>role = USER, content = CONTINUE, personality = None\<rparr>,
              \<lparr>role = ASSISTANT, content = ''time...'', personality = None\<rparr>] = Inl IndexError \<and>
   normalize ([\<lparr>role = USER, content = ''hi'', personality = None\<rparr>] @
              \<lparr>role = USER, content = [], personality = None\<rparr> #
              \<lparr>role = ASSISTANT, content = [], personality = Some ''neutral''\<rparr> # []) = Inl IndexError \<and>
   normalize_step (True, []) \<lparr>role = ASSISTANT, content = ''time...'', personality = None\<rparr> =
     Inl IndexError"
proof -
  have p: "normalize_loop [\<lparr>role = USER, content = ''hi'', personality = None\<rparr>] (False, []) =
             Inr (False, [\<lparr>e_role = USER, e_content = ''hi''\<rparr>])"
    by code_simp
  note t = normalize_merge_partial
    [of "[]" "\<lparr>role = ASSISTANT, content = ''time...'', personality = None\<rparr>"
        "\<lparr>role = USER, content = CONTINUE, personality = None\<rparr>"
        "\<lparr>role = ASSISTANT, content = ''time...'', personality = None\<rparr>" "[]"
        "[\<lparr>role = USER, content = ''hi'', personality = None\<rparr>]" ]
  note t2 = normalize_merge_partial
    [of "[\<lparr>e_role = USER, e_content = ''hi''\<rparr>]" "\<lparr>role = ASSISTANT, content = ''time...'', personality = None\<rparr>"
        "\<lparr>role = USER, content = [], personality = None\<rparr>"
        "\<lparr>role = ASSISTANT, content = [], personality = Some ''neutral''\<rparr>" "[]"
        "[\<lparr>role = USER, content = ''hi'', personality = None\<rparr>]" ]
  from t t2 p show ?thesis by simp
qed

text \<open>
  A sequence that consists of the sentinel turn alone is normalized without an error:
  the flag is set and no turn is left to merge.
\<close>

theorem normalize_sentinel_only_counterexample:
  "normalize [\<lparr>role = USER, content = CONTINUE, personality = None\<rparr>] = Inr []"
  by code_simp

section \<open>Continuing\<close>

lemma SYSTEM_not_continuable: "SYSTEM \<notin> set [ASSISTANT, USER]"
  by (simp add: SYSTEM_def ASSISTANT_def USER_def)

text \<open>
  Claim C5. On an empty store the continue command fails with \<open>NothingToContinue\<close>, and
  on a store whose last turn has the role \<open>system\<close> with \<open>NotContinuable\<close>. In both cases
  nothing but the pop-up happens: no request is sent to the provider, and the turns and
  the files are as before.
\<close>

theorem continue_failure_cases:
  assumes "session_data st = [] \<or> role (last (session_data st)) = SYSTEM"
  shows "continue_message ev st =
           (st\<lparr>popups := popups st @
                  [if session_data st = [] then NothingToContinue else NotContinuable]\<rparr>, None)
         \<and> requests (fst (continue_message ev st)) = requests st
         \<and> session_data (fst (continue_message ev st)) = session_data st
         \<and> files (fst (continue_message ev st)) = files st"
proof (cases "session_data st = []")
  case True
  then show ?thesis
    by (simp add: continue_message_def popup_info_def NothingToContinue_def)
next
  case False
  with assms have "role (last (session_data st)) \<notin> set [ASSISTANT, USER]"
    using SYSTEM_not_continuable by simp
  with False show ?thesis
    by (simp add: continue_message_def popup_info_def NotContinuable_def)
qed

theorem continue_failure_cases_witness:
  "(session_data ex_client = [] \<or> role (last (session_data ex_client)) = SYSTEM) \<and>
   continue_message ex_env ex_client = (ex_client\<lparr>popups := [NothingToContinue]\<rparr>, None) \<and>
   (session_data ex_failed = [] \<or> role (last (session_data ex_failed)) = SYSTEM) \<and>
   continue_message ex_env ex_failed = (ex_failed\<lparr>popups := [NotContinuable]\<rparr>, None)"
proof -
  have a: "session_data ex_client = [] \<or> role (last (session_data ex_client)) = SYSTEM"
    by (simp add: ex_client_def)
  have b: "session_data ex_failed = [] \<or> role (last (session_data ex_failed)) = SYSTEM"
    by (simp add: ex_failed_def ex_client_def)
  have c: "session_data ex_client = []" "popups ex_client = []"
    by (simp_all add: ex_client_def)
  have d: "session_data ex_failed \<noteq> []" "popups ex_failed = []"
    by (simp_all add: ex_failed_def ex_client_def)
  from continue_failure_cases [OF a, of ex_env] continue_failure_cases [OF b, of ex_env] a b c d
  show ?thesis by simp
qed

text \<open>
  Claim C3 does not hold of the code. Continuing a session whose last turn is the user's
  stores the sentinel as a user turn and the reply as an assistant turn, and the live
  display shows the reply as a new assistant message. The export normalization then
  merges the reply into the user's entry: the export has one entry, the user's, with the
  reply joined to it.
\<close>

theorem user_last_continue_is_merged_on_export:
  "role (last (session_data ex_user_last)) = USER \<and>
   snd (continue_message ex_env ex_user_last) = None \<and>
   session_data (fst (continue_message ex_env ex_user_last)) =
     [\<lparr>role = USER, content = ''Tell me'', personality = None\<rparr>,
      \<lparr>role = USER, content = CONTINUE, personality = None\<rparr>,
      \<lparr>role = ASSISTANT, content = ''a story'', personality = Some ''neutral''\<rparr>] \<and>
   chat_display (fst (continue_message ex_env ex_user_last)) =
     ''  __You: Tell me\<newline>MyPyGPT: a story'' \<and>
   normalize (session_data (fst (continue_message ex_env ex_user_last))) =
     Inr [\<lparr>e_role = USER, e_content = ''Tell me a story''\<rparr>] \<and>
   map_of (files (fst (export_session ex_env (fst (continue_message ex_env ex_user_last))
                         (Some ''story.txt'') [] True 60 []))) ''story.txt'' =
     Some (TextFile ''Tell me a story\<newline>---------------\<newline>'')"
  by code_simp

section \<open>Loading\<close>

lemma ROLE_MAP_eq:
  "ROLE_MAP r =
     (if r = USER then Some USER_NAME else if r = ASSISTANT then Some ASSISTANT_NAME
      else if r = SYSTEM then Some SYSTEM_NAME else None)"
  by (simp add: ROLE_MAP_def)

lemma role_names_distinct:
  "USER_NAME \<noteq> ASSISTANT_NAME" "USER_NAME \<noteq> SYSTEM_NAME" "ASSISTANT_NAME \<noteq> SYSTEM_NAME"
  "USER_NAME \<noteq> []" "ASSISTANT_NAME \<noteq> []" "SYSTEM_NAME \<noteq> []"
  by (simp_all add: USER_NAME_def ASSISTANT_NAME_def SYSTEM_NAME_def)

lemma roles_distinct:
  "USER \<noteq> ASSISTANT" "USER \<noteq> SYSTEM" "ASSISTANT \<noteq> SYSTEM"
  by (simp_all add: USER_def ASSISTANT_def SYSTEM_def)

lemma update_chat_display_Inr:
  "update_chat_display st m s a = Inr st1 \<Longrightarrow> \<exists>t. st1 = st\<lparr>chat_display := chat_display st @ t\<rparr>"
  by (auto simp: update_chat_display_def split: sum.splits)

lemma format_chat_message_sender:
  "s \<noteq> [] \<Longrightarrow> \<exists>t. format_chat_message st m (Some s) a = Inr t"
  by (simp add: format_chat_message_def)

lemma format_chat_message_merge:
  "m \<noteq> [] \<Longrightarrow> \<exists>t. format_chat_message st m None True = Inr t"
  by (simp add: format_chat_message_def add_space_when_needed_Cons)

lemma update_chat_display_sender:
  assumes "s \<noteq> []"
  shows "\<exists>st1. update_chat_display st m (Some s) a = Inr st1"
proof -
  obtain t where "format_chat_message st (strip m) (Some s) a = Inr t"
    using format_chat_message_sender [OF assms] by blast
  then show ?thesis by (simp add: update_chat_display_def)
qed

lemma update_chat_display_merge:
  assumes "strip m \<noteq> []"
  shows "\<exists>st1. update_chat_display st m None True = Inr st1"
proof -
  obtain t where "format_chat_message st (strip m) None True = Inr t"
    using format_chat_message_merge [OF assms] by blast
  then show ?thesis by (simp add: update_chat_display_def)
qed

lemma load_loop_Cons:
  "load_loop (e # es) ic st =
     (if role e = USER then
        (if content e = CONTINUE then load_loop es True (st\<lparr>session_data := session_data st @ [e]\<rparr>)
         else (case update_chat_display st (content e) (Some USER_NAME) False of
                 Inl x \<Rightarrow> (st, Some x)
               | Inr st1 \<Rightarrow> load_loop es ic (st1\<lparr>session_data := session_data st1 @ [e]\<rparr>)))
      else if role e = ASSISTANT then
        (if ic then
           (case update_chat_display st (content e) None True of
              Inl x \<Rightarrow> (st, Some x)
            | Inr st1 \<Rightarrow> load_loop es False (st1\<lparr>session_data := session_data st1 @ [e]\<rparr>))
         else
           (case update_chat_display st (content e) (Some ASSISTANT_NAME) False of
              Inl x \<Rightarrow> (st, Some x)
            | Inr st1 \<Rightarrow> load_loop es ic (st1\<lparr>session_data := session_data st1 @ [e]\<rparr>)))
      else if role e = SYSTEM then load_loop es ic st
      else (st, Some (KeyError (role e))))"
  using role_names_distinct role_names_distinct(1-3) [symmetric] roles_distinct
  by (simp add: ROLE_MAP_eq)

lemma load_loop_appends:
  "\<exists>ys d. fst (load_loop es ic st) = st\<lparr>session_data := session_data st @ ys, chat_display := d\<rparr>"
proof (induction es arbitrary: ic st)
  case Nil
  have "st = st\<lparr>session_data := session_data st @ [], chat_display := chat_display st\<rparr>" by simp
  then show ?case by (metis fst_conv load_loop.simps(1))
next
  case (Cons e es)
  have self: "\<exists>ys d. st = st\<lparr>session_data := session_data st @ ys, chat_display := d\<rparr>"
  proof -
    have "st = st\<lparr>session_data := session_data st @ [], chat_display := chat_display st\<rparr>" by simp
    then show ?thesis by blast
  qed
  have step: "\<exists>ys d. fst (load_loop es c (st1\<lparr>session_data := session_data st1 @ [e]\<rparr>)) =
                 st\<lparr>session_data := session_data st @ ys, chat_display := d\<rparr>"
    if "st1 = st\<lparr>chat_display := t\<rparr>" for st1 t c
  proof -
    from Cons.IH [of c "st1\<lparr>session_data := session_data st1 @ [e]\<rparr>"]
    obtain ys d where "fst (load_loop es c (st1\<lparr>session_data := session_data st1 @ [e]\<rparr>)) =
       st1\<lparr>session_data := session_data st1 @ [e]\<rparr>
          \<lparr>session_data := session_data (st1\<lparr>session_data := session_data st1 @ [e]\<rparr>) @ ys,
           chat_display := d\<rparr>" by blast
    then have "fst (load_loop es c (st1\<lparr>session_data := session_data st1 @ [e]\<rparr>)) =
       st\<lparr>session_data := session_data st @ ([e] @ ys), chat_display := d\<rparr>"
      using that by simp
    then show ?thesis by blast
  qed
  have shown: "\<exists>ys d. fst (case update_chat_display st (content e) s a of
                             Inl x \<Rightarrow> (st, Some x)
                           | Inr st1 \<Rightarrow> load_loop es c (st1\<lparr>session_data := session_data st1 @ [e]\<rparr>)) =
                 st\<lparr>session_data := session_data st @ ys, chat_display := d\<rparr>" for s a c
  proof (cases "update_chat_display st (content e) s a")
    case (Inl x)
    then show ?thesis using self by simp
  next
    case (Inr st1)
    then obtain t where "st1 = st\<lparr>chat_display := chat_display st @ t\<rparr>"
      using update_chat_display_Inr by blast
    from step [OF this, of c] show ?thesis using Inr by simp
  qed
  have st_id: "st = st\<lparr>chat_display := chat_display st\<rparr>" by simp
  show ?case
    unfolding load_loop_Cons
    using shown self step [OF st_id, of True] Cons.IH [of ic st] by simp
qed

lemma load_loop_exact:
  "load_loop es ic st = (st', None) \<Longrightarrow>
     \<exists>d. st' = st\<lparr>session_data := session_data st @ filter (\<lambda>e. role e \<noteq> SYSTEM) es,
                   chat_display := d\<rparr>"
proof (induction es arbitrary: ic st)
  case Nil
  then have "st' = st\<lparr>session_data := session_data st @ filter (\<lambda>e. role e \<noteq> SYSTEM) [],
                   chat_display := chat_display st\<rparr>" by simp
  then show ?case by blast
next
  case (Cons e es)
  have step: "\<exists>d. st' = st\<lparr>session_data := session_data st @ filter (\<lambda>e. role e \<noteq> SYSTEM) (e # es),
                           chat_display := d\<rparr>"
    if "st1 = st\<lparr>chat_display := t\<rparr>" and "role e \<noteq> SYSTEM"
      and "load_loop es c (st1\<lparr>session_data := session_data st1 @ [e]\<rparr>) = (st', None)" for st1 t c
  proof -
    from Cons.IH [OF that(3)] obtain d where
      "st' = st1\<lparr>session_data := session_data st1 @ [e]\<rparr>
          \<lparr>session_data := session_data (st1\<lparr>session_data := session_data st1 @ [e]\<rparr>) @
                            filter (\<lambda>e. role e \<noteq> SYSTEM) es,
           chat_display := d\<rparr>" by blast
    then have "st' = st\<lparr>session_data := session_data st @ filter (\<lambda>e. role e \<noteq> SYSTEM) (e # es),
                       chat_display := d\<rparr>"
      using that(1,2) by simp
    then show ?thesis by blast
  qed
  have shown: ?case
    if "role e \<noteq> SYSTEM"
      and "(case update_chat_display st (content e) s a of
              Inl x \<Rightarrow> (st, Some x)
            | Inr st1 \<Rightarrow> load_loop es c (st1\<lparr>session_data := session_data st1 @ [e]\<rparr>)) = (st', None)"
    for s a c
  proof (cases "update_chat_display st (content e) s a")
    case (Inl x)
    then show ?thesis using that(2) by simp
  next
    case (Inr st1)
    then obtain t where t: "st1 = st\<lparr>chat_display := chat_display st @ t\<rparr>"
      using update_chat_display_Inr by blast
    have "load_loop es c (st1\<lparr>session_data := session_data st1 @ [e]\<rparr>) = (st', None)"
      using that(2) Inr by simp
    from step [OF t that(1) this] show ?thesis .
  qed
  have st_id: "st = st\<lparr>chat_display := chat_display st\<rparr>" by simp
  show ?case
  proof (cases "role e = USER")
    case True
    then have ns: "role e \<noteq> SYSTEM" using roles_distinct by simp
    show ?thesis
    proof (cases "content e = CONTINUE")
      case c: True
      have "load_loop es True (st\<lparr>session_data := session_data st @ [e]\<rparr>) = (st', None)"
        using Cons.prems True c unfolding load_loop_Cons by simp
      from step [OF st_id ns this] show ?thesis .
    next
      case c: False
      show ?thesis
        by (rule shown [where s = "Some USER_NAME" and a = False and c = ic, OF ns])
           (use Cons.prems True c in \<open>simp add: load_loop_Cons del: load_loop.simps\<close>)
    qed
  next
    case nu: False
    show ?thesis
    proof (cases "role e = ASSISTANT")
      case True
      then have ns: "role e \<noteq> SYSTEM" using roles_distinct by simp
      show ?thesis
      proof (cases ic)
        case c: True
        show ?thesis
          by (rule shown [where s = None and a = True and c = False, OF ns])
             (use Cons.prems True nu c in \<open>simp add: load_loop_Cons del: load_loop.simps\<close>)
      next
        case c: False
        show ?thesis
          by (rule shown [where s = "Some ASSISTANT_NAME" and a = False and c = False, OF ns])
             (use Cons.prems True nu c in \<open>simp add: load_loop_Cons del: load_loop.simps\<close>)
      qed
    next
      case na: False
      show ?thesis
      proof (cases "role e = SYSTEM")
        case True
        have "load_loop es ic st = (st', None)"
          using Cons.prems True nu na by (simp add: load_loop_Cons del: load_loop.simps)
        from Cons.IH [OF this] show ?thesis using True by simp
      next
        case False
        then show ?thesis
          using Cons.prems nu na by (simp add: load_loop_Cons del: load_loop.simps)
      qed
    qed
  qed
qed

lemma load_loop_completes:
  "list_all replayable es \<Longrightarrow> snd (load_loop es ic st) = None"
proof (induction es arbitrary: ic st)
  case Nil
  show ?case by simp
next
  case (Cons e es)
  then have e: "replayable e" and es: "list_all replayable es" by simp_all
  show ?case
  proof (cases "role e = USER")
    case True
    obtain st1 where "update_chat_display st (content e) (Some USER_NAME) False = Inr st1"
      using update_chat_display_sender [OF role_names_distinct(4)] by blast
    then show ?thesis
      using True Cons.IH [OF es] by (simp add: load_loop_Cons del: load_loop.simps)
  next
    case False
    with e have a: "role e = ASSISTANT" and c: "strip (content e) \<noteq> []"
      by (simp_all add: replayable_def)
    obtain st1 where 1: "update_chat_display st (content e) None True = Inr st1"
      using update_chat_display_merge [OF c] by blast
    obtain st2 where 2: "update_chat_display st (content e) (Some ASSISTANT_NAME) False = Inr st2"
      using update_chat_display_sender [OF role_names_distinct(5)] by blast
    show ?thesis
      using False a 1 2 Cons.IH [OF es] by (simp add: load_loop_Cons del: load_loop.simps)
  qed
qed

lemma replayable_not_system: "list_all replayable es \<Longrightarrow> filter (\<lambda>e. role e \<noteq> SYSTEM) es = es"
proof (induction es)
  case Nil
  show ?case by simp
next
  case (Cons e es)
  then show ?case using roles_distinct by (auto simp: replayable_def)
qed

lemma path_join_not_Nil: "b \<noteq> [] \<Longrightarrow> path_join a b \<noteq> []"
  by (simp add: path_join_def)

lemma load_session_found:
  assumes "p \<noteq> []" and "map_of (files st) p = Some (JsonFile data)"
    and "name = None \<and> chosen = p \<or> name = Some p"
  shows "load_session st name chosen =
     load_loop (case json_history data of Some h \<Rightarrow> h | None \<Rightarrow> []) False
       (st\<lparr>model := (case json_model data of Some v \<Rightarrow> v | None \<Rightarrow> model st),
           cur_personality := (case json_personality data of Some v \<Rightarrow> v | None \<Rightarrow> cur_personality st),
           add_sys_msg := (case json_add_sys_msg data of Some v \<Rightarrow> v | None \<Rightarrow> add_sys_msg st),
           max_tokens := (case json_max_tokens data of Some v \<Rightarrow> v | None \<Rightarrow> max_tokens st),
           current_session := Some (str_replace ''.json'' [] (basename p)),
           chat_display := []\<rparr>)"
  using assms by (auto simp: load_session_def path_exists_def Let_def)

text \<open>
  Claim C10 (as amended). Loading a document never clears or overwrites the turns in
  memory: they stay a prefix of the turn sequence. When the load completes, the sequence
  is the old one followed by the turns of the loaded history whose role is not
  \<open>system\<close>; turns with the role \<open>system\<close> are not taken over. Each generation parameter
  is overwritten if and only if the document has the field.
\<close>

theorem load_appends_non_system:
  assumes "p \<noteq> []" and "map_of (files st) p = Some (JsonFile data)"
  shows "take (length (session_data st)) (session_data (fst (load_session st None p))) = session_data st
       \<and> (snd (load_session st None p) = None \<longrightarrow>
            session_data (fst (load_session st None p)) =
              session_data st @
                filter (\<lambda>e. role e \<noteq> SYSTEM) (case json_history data of Some h \<Rightarrow> h | None \<Rightarrow> []))
       \<and> model (fst (load_session st None p)) = (case json_model data of Some v \<Rightarrow> v | None \<Rightarrow> model st)
       \<and> max_tokens (fst (load_session st None p)) =
            (case json_max_tokens data of Some v \<Rightarrow> v | None \<Rightarrow> max_tokens st)
       \<and> cur_personality (fst (load_session st None p)) =
            (case json_personality data of Some v \<Rightarrow> v | None \<Rightarrow> cur_personality st)
       \<and> add_sys_msg (fst (load_session st None p)) =
            (case json_add_sys_msg data of Some v \<Rightarrow> v | None \<Rightarrow> add_sys_msg st)"
proof -
  let ?h = "case json_history data of Some h \<Rightarrow> h | None \<Rightarrow> []"
  let ?st = "st\<lparr>model := (case json_model data of Some v \<Rightarrow> v | None \<Rightarrow> model st),
           cur_personality := (case json_personality data of Some v \<Rightarrow> v | None \<Rightarrow> cur_personality st),
           add_sys_msg := (case json_add_sys_msg data of Some v \<Rightarrow> v | None \<Rightarrow> add_sys_msg st),
           max_tokens := (case json_max_tokens data of Some v \<Rightarrow> v | None \<Rightarrow> max_tokens st),
           current_session := Some (str_replace ''.json'' [] (basename p)),
           chat_display := []\<rparr>"
  have l: "load_session st None p = load_loop ?h False ?st"
    using load_session_found [OF assms, of None p] by simp
  obtain ys d where a: "fst (load_loop ?h False ?st) =
      ?st\<lparr>session_data := session_data ?st @ ys, chat_display := d\<rparr>"
    using load_loop_appends [of ?h False ?st] by blast
  have e: "session_data (fst (load_loop ?h False ?st)) = session_data st @ filter (\<lambda>e. role e \<noteq> SYSTEM) ?h"
    if "snd (load_loop ?h False ?st) = None"
  proof -
    from that have "load_loop ?h False ?st = (fst (load_loop ?h False ?st), None)"
      by (metis prod.collapse)
    from load_loop_exact [OF this] show ?thesis by auto
  qed
  show ?thesis unfolding l using a e by simp
qed

theorem load_appends_non_system_witness:
  "''sessions/failed.json'' \<noteq> [] \<and>
   snd (load_session ex_loading None ''sessions/failed.json'') = None \<and>
   session_data (fst (load_session ex_loading None ''sessions/failed.json'')) =
     [\<lparr>role = USER, content = ''earlier'', personality = None\<rparr>,
      \<lparr>role = USER, content = ''hi'', personality = None\<rparr>] \<and>
   model (fst (load_session ex_loading None ''sessions/failed.json'')) = ''gpt-4o-mini'' \<and>
   max_tokens (fst (load_session ex_loading None ''sessions/failed.json'')) = 300"
proof -
  have p: "''sessions/failed.json'' \<noteq> []" by simp
  have f: "map_of (files ex_loading) ''sessions/failed.json'' =
             Some (JsonFile \<lparr>json_model = None, json_max_tokens = Some 300, json_system = None,
                       json_personality = None, json_add_sys_msg = Some ''Be brief.'',
                       json_history = Some (session_data ex_failed)\<rparr>)"
    by (simp add: ex_loading_def)
  have n: "snd (load_session ex_loading None ''sessions/failed.json'') = None" by code_simp
  have s: "session_data ex_loading @ filter (\<lambda>e. role e \<noteq> SYSTEM) (session_data ex_failed) =
     [\<lparr>role = USER, content = ''earlier'', personality = None\<rparr>,
      \<lparr>role = USER, content = ''hi'', personality = None\<rparr>]" by code_simp
  have m: "model ex_loading = ''gpt-4o-mini''" by (simp add: ex_loading_def ex_client_def)
  from load_appends_non_system [OF p f] n s m show ?thesis by simp
qed

text \<open>
  With one turn in memory and a history of a user turn and a system turn, the load
  completes and leaves two turns, not three.
\<close>

theorem load_drops_system_turn_counterexample:
  "map_of (files ex_loading) ''sessions/failed.json'' =
     Some (JsonFile \<lparr>json_model = None, json_max_tokens = Some 300, json_system = None,
                      json_personality = None, json_add_sys_msg = Some ''Be brief.'',
                      json_history =
                        Some [\<lparr>role = USER, content = ''hi'', personality = None\<rparr>,
                              \<lparr>role = SYSTEM, content = SORRY_REPLY,
                                personality = Some ''neutral''\<rparr>]\<rparr>) \<and>
   session_data ex_loading = [\<lparr>role = USER, content = ''earlier'', personality = None\<rparr>] \<and>
   load_session ex_loading None ''sessions/failed.json'' =
     (ex_loading
        \<lparr>session_data := [\<lparr>role = USER, content = ''earlier'', personality = None\<rparr>,
                          \<lparr>role = USER, content = ''hi'', personality = None\<rparr>],
         max_tokens := 300, add_sys_msg := ''Be brief.'', current_session := Some ''failed'',
         chat_display := ''\<newline>\<newline>  __You: hi''\<rparr>, None)"
  by code_simp

section \<open>Saving and loading again\<close>

text \<open>
  Claim C1 (as amended). Let a session that is not temporary and has an identifier hold
  only user turns and assistant turns with non-blank content. After it is saved, loading
  the saved document completes, appends exactly the session's turns to the turns of the
  loading client (so an empty store recovers the sequence), and sets the model, the
  token limit, the personality and the addendum to the session's.
\<close>

theorem save_load_round_trip:
  assumes "current_session st = Some sid" and "sid \<noteq> []" and "\<not> temp_session_var st"
    and "list_all replayable (session_data st)"
    and "files c = files (save_current_session ev st)"
  shows "snd (load_session c (Some (path_join (sessions_dir st) (sid @ ''.json''))) chosen) = None
       \<and> session_data (fst (load_session c (Some (path_join (sessions_dir st) (sid @ ''.json''))) chosen)) =
            session_data c @ session_data st
       \<and> model (fst (load_session c (Some (path_join (sessions_dir st) (sid @ ''.json''))) chosen)) = model st
       \<and> max_tokens (fst (load_session c (Some (path_join (sessions_dir st) (sid @ ''.json''))) chosen)) =
            max_tokens st
       \<and> cur_personality (fst (load_session c (Some (path_join (sessions_dir st) (sid @ ''.json''))) chosen)) =
            cur_personality st
       \<and> add_sys_msg (fst (load_session c (Some (path_join (sessions_dir st) (sid @ ''.json''))) chosen)) =
            add_sys_msg st"
proof -
  let ?p = "path_join (sessions_dir st) (sid @ ''.json'')"
  let ?d = "\<lparr>json_model = Some (model st), json_max_tokens = Some (max_tokens st),
             json_system = Some (SYSTEM_MESSAGE ev), json_personality = Some (cur_personality st),
             json_add_sys_msg = Some (add_sys_msg st), json_history = Some (session_data st)\<rparr>"
  let ?c = "c\<lparr>model := model st, cur_personality := cur_personality st,
              add_sys_msg := add_sys_msg st, max_tokens := max_tokens st,
              current_session := Some (str_replace ''.json'' [] (basename ?p)),
              chat_display := []\<rparr>"
  have p: "?p \<noteq> []" by (rule path_join_not_Nil) simp
  have f: "map_of (files c) ?p = Some (JsonFile ?d)"
    using assms(1,2,3,5) by (simp add: save_current_session_def write_file_def)
  have l: "load_session c (Some ?p) chosen = load_loop (session_data st) False ?c"
    using load_session_found [OF p f, of "Some ?p" chosen] by simp
  have n: "snd (load_loop (session_data st) False ?c) = None"
    using load_loop_completes [OF assms(4)] .
  then have "load_loop (session_data st) False ?c = (fst (load_loop (session_data st) False ?c), None)"
    by (metis prod.collapse)
  from load_loop_exact [OF this] obtain d where
    "fst (load_loop (session_data st) False ?c) =
       ?c\<lparr>session_data := session_data ?c @ filter (\<lambda>e. role e \<noteq> SYSTEM) (session_data st),
           chat_display := d\<rparr>" by blast
  then have "fst (load_loop (session_data st) False ?c) =
       ?c\<lparr>session_data := session_data c @ session_data st, chat_display := d\<rparr>"
    using replayable_not_system [OF assms(4)] by simp
  with n show ?thesis unfolding l by simp
qed

theorem save_load_round_trip_witness:
  "current_session ex_story_client = Some ''20250101120000'' \<and>
   \<not> temp_session_var ex_story_client \<and>
   list_all replayable (session_data ex_story_client) \<and>
   snd (load_session ((save_current_session ex_env ex_story_client)\<lparr>session_data := []\<rparr>)
          (Some ''sessions/20250101120000.json'') []) = None \<and>
   session_data (fst (load_session ((save_current_session ex_env ex_story_client)\<lparr>session_data := []\<rparr>)
          (Some ''sessions/20250101120000.json'') [])) = ex_story \<and>
   max_tokens (fst (load_session ((save_current_session ex_env ex_story_client)\<lparr>session_data := []\<rparr>)
          (Some ''sessions/20250101120000.json'') [])) = 300"
proof -
  have a: "current_session ex_story_client = Some ''20250101120000''"
    by (simp add: ex_story_client_def ex_client_def)
  have b: "''20250101120000'' \<noteq> []" by simp
  have c: "\<not> temp_session_var ex_story_client" by (simp add: ex_story_client_def ex_client_def)
  have d: "list_all replayable (session_data ex_story_client)" by code_simp
  have e: "files ((save_current_session ex_env ex_story_client)\<lparr>session_data := []\<rparr>) =
             files (save_current_session ex_env ex_story_client)" by simp
  have p: "path_join (sessions_dir ex_story_client) (''20250101120000'' @ ''.json'') =
             ''sessions/20250101120000.json''" by code_simp
  have s: "session_data ex_story_client = ex_story" "max_tokens ex_story_client = 300"
    by (simp_all add: ex_story_client_def)
  from save_load_round_trip [OF a b c d e, of "[]"] a c d p s show ?thesis by simp
qed

text \<open>
  A session with a failed request is saved with its system turn and loaded without it.
\<close>

theorem save_load_drops_system_turn_counterexample:
  "current_session ex_failed = Some ''20250101120000'' \<and>
   \<not> temp_session_var ex_failed \<and>
   session_data ex_failed =
     [\<lparr>role = USER, content = ''hi'', personality = None\<rparr>,
      \<lparr>role = SYSTEM, content = SORRY_REPLY, personality = Some ''neutral''\<rparr>] \<and>
   snd (load_session ((save_current_session ex_env ex_failed)\<lparr>session_data := []\<rparr>)
          (Some ''sessions/20250101120000.json'') []) = None \<and>
   session_data (fst (load_session ((save_current_session ex_env ex_failed)\<lparr>session_data := []\<rparr>)
          (Some ''sessions/20250101120000.json'') [])) =
     [\<lparr>role = USER, content = ''hi'', personality = None\<rparr>]"
  by code_simp

section \<open>Exporting: what is written\<close>

text \<open>
  Claim C4 does not hold of the code. The placeholder turn of a failed request has the
  stored role \<open>system\<close>, which the normalization labels with the personality like a
  reply, and the plain-text export writes it. Even an entry of the system category is
  written by the plain-text loop, which adds the reflowed content before it looks at the
  role; the Markdown loop leaves such an entry out.
\<close>

theorem plain_text_export_writes_system_turn:
  "normalize (session_data ex_failed) =
     Inr [\<lparr>e_role = USER, e_content = ''hi''\<rparr>,
          \<lparr>e_role = ''neutral'', e_content = SORRY_REPLY\<rparr>] \<and>
   map_of (files (fst (export_session ex_env ex_failed (Some ''out.txt'') [] True 60 []))) ''out.txt'' =
     Some (TextFile (''hi\<newline>--\<newline>'' @ SORRY_REPLY @ ''\<newline>'')) \<and>
   plain_text_loop 60 [\<lparr>e_role = SYSTEM, e_content = ''failed''\<rparr>] [] = ''failed\<newline>'' \<and>
   markdown_loop [\<lparr>e_role = SYSTEM, e_content = ''failed''\<rparr>] [] = []"
  by code_simp

text \<open>
  Claim C7 does not hold of the code. For a destination with an extension outside the
  list the pop-up \<open>Invalid file extension.\<close> is shown, and then the export goes on: it
  writes a file that holds one newline and reports success.
\<close>

theorem export_unknown_extension_writes_file:
  "export_session ex_env ex_user_last (Some ''out.xyz'') [] True 60 [] =
     (ex_user_last
        \<lparr>files := [(''out.xyz'', TextFile ''\<newline>'')],
         popups := [PopupInfo ''Error'' ''Invalid file extension.'' True,
                    PopupOkCustom ''Exported'' ''Session exported successfully.'']\<rparr>,
      None)"
  by code_simp

end
